theory Spec2Isabelle
  imports Complex_Main "HOL-Library.Multiset"
begin

section \<open>Python values and exceptions\<close>

text \<open>
  A finite Python float is modelled as a \<^typ>\<open>real\<close>, and an operation on finite floats
  whose result is finite gives the exact result: rounding is left out. Where the code
  leaves the finite range on finite inputs, the model follows it: the quotient of two
  closes can round to \<open>0.0\<close> or to \<open>inf\<close>, and the volatility estimator below computes on
  floats with infinities and NaN. Python \<open>None\<close> is \<open>None\<close> of an option type. An
  exception is a value \<open>Inl e\<close> of a sum type.
\<close>

datatype py_error =
    ZeroDivisionError
  | ValueError
  | AttributeError
  | ConnectionError
  | HTTPError
  | JSONDecodeError
  | RuntimeError

text \<open>The slice \<open>xs[start:]\<close>: a negative start counts from the end and is clipped at 0.\<close>

definition py_slice_from :: "int \<Rightarrow> 'a list \<Rightarrow> 'a list" where
  "py_slice_from start xs =
     (let n = int (length xs);
          s = (if start < 0 then max 0 (n + start) else min start n)
      in drop (nat s) xs)"

text \<open>The slice \<open>xs[:stop]\<close>: a negative stop counts from the end and is clipped at 0.\<close>

definition py_slice_to :: "int \<Rightarrow> 'a list \<Rightarrow> 'a list" where
  "py_slice_to stop xs =
     (let n = int (length xs);
          s = (if stop < 0 then max 0 (n + stop) else min stop n)
      in take (nat s) xs)"

section \<open>realized.py: realized volatility from closes\<close>

subsection \<open>Floats with infinities and NaN\<close>

datatype pyfloat = Fin real | PosInf | NegInf | NaN

fun fneg :: "pyfloat \<Rightarrow> pyfloat" where
  "fneg (Fin a) = Fin (- a)"
| "fneg PosInf = NegInf"
| "fneg NegInf = PosInf"
| "fneg NaN = NaN"

fun fadd :: "pyfloat \<Rightarrow> pyfloat \<Rightarrow> pyfloat" where
  "fadd (Fin a) (Fin b) = Fin (a + b)"
| "fadd NaN y = NaN"
| "fadd x NaN = NaN"
| "fadd PosInf NegInf = NaN"
| "fadd NegInf PosInf = NaN"
| "fadd PosInf y = PosInf"
| "fadd x PosInf = PosInf"
| "fadd NegInf y = NegInf"
| "fadd x NegInf = NegInf"

definition fsub :: "pyfloat \<Rightarrow> pyfloat \<Rightarrow> pyfloat" where
  "fsub x y = fadd x (fneg y)"

text \<open>\<open>x ** 2\<close>.\<close>

fun fsq :: "pyfloat \<Rightarrow> pyfloat" where
  "fsq (Fin a) = Fin (a\<^sup>2)"
| "fsq PosInf = PosInf"
| "fsq NegInf = PosInf"
| "fsq NaN = NaN"

text \<open>\<open>x * 252.0\<close>.\<close>

fun fmul252 :: "pyfloat \<Rightarrow> pyfloat" where
  "fmul252 (Fin a) = Fin (a * 252)"
| "fmul252 x = x"

text \<open>\<open>x / n\<close> for a float \<open>x\<close> and an integer \<open>n\<close>: division by zero raises.\<close>

fun fdiv_int :: "pyfloat \<Rightarrow> int \<Rightarrow> py_error + pyfloat" where
  "fdiv_int x n =
     (if n = 0 then Inl ZeroDivisionError
      else (case x of
              Fin a \<Rightarrow> Inr (Fin (a / real_of_int n))
            | PosInf \<Rightarrow> Inr (if 0 < n then PosInf else NegInf)
            | NegInf \<Rightarrow> Inr (if 0 < n then NegInf else PosInf)
            | NaN \<Rightarrow> Inr NaN))"

text \<open>\<open>sum(xs)\<close>: the additions from left to right, starting from 0.\<close>

definition fsum :: "pyfloat list \<Rightarrow> pyfloat" where
  "fsum xs = foldl fadd (Fin 0) xs"

text \<open>
  \<open>math.log\<close> and \<open>math.sqrt\<close>: a \<open>ValueError\<close> outside the domain, NaN for NaN, \<open>inf\<close> for
  \<open>inf\<close>.
\<close>

fun math_log :: "pyfloat \<Rightarrow> py_error + pyfloat" where
  "math_log (Fin a) = (if a \<le> 0 then Inl ValueError else Inr (Fin (ln a)))"
| "math_log PosInf = Inr PosInf"
| "math_log NegInf = Inl ValueError"
| "math_log NaN = Inr NaN"

fun math_sqrt :: "pyfloat \<Rightarrow> py_error + pyfloat" where
  "math_sqrt (Fin a) = (if a < 0 then Inl ValueError else Inr (Fin (sqrt a)))"
| "math_sqrt PosInf = Inr PosInf"
| "math_sqrt NegInf = Inl ValueError"
| "math_sqrt NaN = Inr NaN"

text \<open>
  The double quotient \<open>c1 / c0\<close> of two positive closes. Division rounds the exact quotient
  to the nearest double, ties to even: a quotient of at most \<open>1 / 2 ^ 1075\<close> (half the
  smallest positive double) rounds to \<open>0.0\<close>, and a quotient of at least
  \<open>2 ^ 1024 - 2 ^ 970\<close> (half way from the largest double to \<open>2 ^ 1024\<close>) rounds to \<open>inf\<close>.
\<close>

definition rounds_to_zero :: "real \<Rightarrow> bool" where
  "rounds_to_zero q = (q \<le> 1 / 2 ^ 1075)"

definition rounds_to_inf :: "real \<Rightarrow> bool" where
  "rounds_to_inf q = (2 ^ 1024 - 2 ^ 970 \<le> q)"

definition close_quotient :: "real \<Rightarrow> real \<Rightarrow> pyfloat" where
  "close_quotient c1 c0 =
     (if rounds_to_zero (c1 / c0) then Fin 0
      else if rounds_to_inf (c1 / c0) then PosInf
      else Fin (c1 / c0))"

subsection \<open>realized_vol_annualized_from_closes\<close>

text \<open>
  The loop over consecutive closes \<open>(closes[i-1], closes[i])\<close>, pair by pair in order:
  \<open>Inr None\<close> is the early \<open>return None\<close> at a pair with a missing or non-positive close,
  \<open>Inl\<close> an exception raised by \<open>math.log\<close> at a pair, \<open>Inr (Some rets)\<close> the list of log
  returns when the loop ends.
\<close>

fun log_returns :: "real option list \<Rightarrow> py_error + pyfloat list option" where
  "log_returns (c0 # c1 # cs) =
     (if c0 = None \<or> c1 = None \<or> the c0 \<le> 0 \<or> the c1 \<le> 0 then Inr None
      else (case math_log (close_quotient (the c1) (the c0)) of
              Inl err \<Rightarrow> Inl err
            | Inr r \<Rightarrow>
                (case log_returns (c1 # cs) of
                   Inl err \<Rightarrow> Inl err
                 | Inr None \<Rightarrow> Inr None
                 | Inr (Some rets) \<Rightarrow> Inr (Some (r # rets)))))"
| "log_returns cs = Inr (Some [])"

definition realized_vol_annualized_from_closes ::
  "real option list \<Rightarrow> int \<Rightarrow> py_error + pyfloat option" where
  "realized_vol_annualized_from_closes closes window =
     (if int (length closes) < window + 1 then Inr None
      else (case log_returns closes of
              Inl err \<Rightarrow> Inl err
            | Inr None \<Rightarrow> Inr None
            | Inr (Some rets) \<Rightarrow>
                (let w = py_slice_from (- window) rets in
                 if int (length w) < window then Inr None
                 else (case fdiv_int (fsum w) (int (length w)) of
                         Inl err \<Rightarrow> Inl err
                       | Inr mean \<Rightarrow>
                           (case fdiv_int (fsum (map (\<lambda>x. fsq (fsub x mean)) w))
                                   (int (length w) - 1) of
                              Inl err \<Rightarrow> Inl err
                            | Inr var \<Rightarrow>
                                (case math_sqrt (fmul252 var) of
                                   Inl err \<Rightarrow> Inl err
                                 | Inr rv \<Rightarrow> Inr (Some rv)))))))"

subsection \<open>The estimator as the specification words it\<close>

text \<open>
  The specification's estimator, on a series of plain positive closes: the quotients of
  consecutive closes, their logarithms, the last \<open>W\<close> of them, their sample variance with
  divisor \<open>W - 1\<close>, annualised with 252 trading days.
\<close>

definition quotients :: "real list \<Rightarrow> real list" where
  "quotients cs = map (\<lambda>i. cs ! Suc i / cs ! i) [0..<length cs - 1]"

definition spec_log_returns :: "real list \<Rightarrow> real list" where
  "spec_log_returns cs = map ln (quotients cs)"

definition last_n :: "nat \<Rightarrow> 'a list \<Rightarrow> 'a list" where
  "last_n n xs = drop (length xs - n) xs"

definition sample_variance :: "real list \<Rightarrow> real" where
  "sample_variance xs =
     (\<Sum>x\<leftarrow>xs. (x - sum_list xs / real (length xs))\<^sup>2) / (real (length xs) - 1)"

text \<open>A close is invalid when it is missing or not positive.\<close>

definition invalid_close :: "real option \<Rightarrow> bool" where
  "invalid_close c = (case c of None \<Rightarrow> True | Some x \<Rightarrow> x \<le> 0)"

text \<open>The closes before the first invalid close of a series.\<close>

definition valid_prefix :: "real option list \<Rightarrow> real list" where
  "valid_prefix cs = map the (takeWhile (\<lambda>c. \<not> invalid_close c) cs)"

section \<open>scan_sp500.py: decoded JSON, helpers\<close>

text \<open>
  A decoded JSON payload. A dictionary is an association list in insertion order, which is
  the order Python iterates it in.
\<close>

datatype pyval =
    PNone
  | PBool bool
  | PNum real
  | PStr string
  | PList "pyval list"
  | PDict "(string \<times> pyval) list"

type_synonym pydict = "(string \<times> pyval) list"

text \<open>Python truthiness, as \<open>or\<close> and \<open>if not x\<close> test it.\<close>

fun truthy :: "pyval \<Rightarrow> bool" where
  "truthy PNone = False"
| "truthy (PBool b) = b"
| "truthy (PNum r) = (r \<noteq> 0)"
| "truthy (PStr s) = (s \<noteq> [])"
| "truthy (PList xs) = (xs \<noteq> [])"
| "truthy (PDict d) = (d \<noteq> [])"

text \<open>\<open>d.get(k)\<close>: the value stored under \<open>k\<close>, or \<open>None\<close>.\<close>

definition dict_get :: "pydict \<Rightarrow> string \<Rightarrow> pyval" where
  "dict_get d k = (case map_of d k of None \<Rightarrow> PNone | Some v \<Rightarrow> v)"

text \<open>\<open>d[k] = v\<close>: an existing key keeps its position, a new key goes last.\<close>

fun dict_setitem :: "string \<Rightarrow> pyval \<Rightarrow> pydict \<Rightarrow> pydict" where
  "dict_setitem k v [] = [(k, v)]"
| "dict_setitem k v ((k', v') # d) =
     (if k' = k then (k, v) # d else (k', v') # dict_setitem k v d)"

text \<open>\<open>out.update(quotes)\<close>: every item of \<open>quotes\<close> is stored, in the order of \<open>quotes\<close>.\<close>

definition dict_update :: "pydict \<Rightarrow> pydict \<Rightarrow> pydict" where
  "dict_update out quotes = foldl (\<lambda>d (k, v). dict_setitem k v d) out quotes"

text \<open>
  \<open>_safe_float\<close>: \<open>None\<close> gives \<open>None\<close>, and so does every value on which \<open>float\<close> raises (a
  list, a dictionary, a string that is not a number). What \<open>float\<close> makes of a string is
  Python's own parser, taken as the parameter \<open>str_float\<close>.
\<close>

fun safe_float :: "(string \<Rightarrow> real option) \<Rightarrow> pyval \<Rightarrow> real option" where
  "safe_float str_float PNone = None"
| "safe_float str_float (PNum r) = Some r"
| "safe_float str_float (PBool b) = Some (if b then 1 else 0)"
| "safe_float str_float (PStr s) = str_float s"
| "safe_float str_float (PList xs) = None"
| "safe_float str_float (PDict d) = None"

text \<open>\<open>_first\<close>: the first element of a non-empty list, any other value unchanged.\<close>

fun first :: "pyval \<Rightarrow> pyval" where
  "first (PList (x # xs)) = x"
| "first v = v"

text \<open>\<open>str.strip\<close> and \<open>str.upper\<close> on ASCII text.\<close>

definition is_space :: "char \<Rightarrow> bool" where
  "is_space c = (of_char c \<in> {9, 10, 11, 12, 13, 28, 29, 30, 31, 32 :: nat})"

definition py_strip :: "string \<Rightarrow> string" where
  "py_strip s = rev (dropWhile is_space (rev (dropWhile is_space s)))"

definition py_upper :: "string \<Rightarrow> string" where
  "py_upper s =
     map (\<lambda>c. if 97 \<le> (of_char c :: nat) \<and> (of_char c :: nat) \<le> 122
               then char_of (of_char c - 32 :: nat) else c) s"

section \<open>scan_sp500.py: the provider, as the code sees it\<close>

text \<open>
  What one \<open>requests.get\<close> gives back: the call raises, or a reply with an HTTP status and a
  body; the body is \<open>None\<close> when \<open>r.json()\<close> raises on it.
\<close>

datatype http_reply =
    ConnFail
  | Reply nat "pyval option"

text \<open>\<open>r.raise_for_status()\<close> raises on a 4xx or 5xx status.\<close>

definition raise_for_status :: "nat \<Rightarrow> bool" where
  "raise_for_status status = (400 \<le> status \<and> status < 600)"

text \<open>
  Everything outside the process: the results of \<open>fetch_spot\<close> and \<open>fetch_chain_symbols\<close>
  per ticker, the reply to the \<open>n\<close>-th quote request of a run (for the chunk it asks for),
  \<open>float\<close> on a string and \<open>str\<close> of an exception.
\<close>

record env =
  env_spot :: "string \<Rightarrow> py_error + real option"
  env_chain :: "string \<Rightarrow> py_error + string list"
  env_quotes :: "nat \<Rightarrow> string list \<Rightarrow> http_reply"
  env_str_float :: "string \<Rightarrow> real option"
  env_exc_text :: "py_error \<Rightarrow> string"

subsection \<open>fetch_quotes_batch_chunked\<close>

text \<open>The symbols kept by the first-seen loop over \<open>seen\<close> and \<open>uniq\<close>.\<close>

fun dedupe :: "string list \<Rightarrow> string list \<Rightarrow> string list" where
  "dedupe uniq [] = uniq"
| "dedupe uniq (s # ss) = (if s \<in> set uniq then dedupe uniq ss else dedupe (uniq @ [s]) ss)"

text \<open>\<open>range(0, n, step)\<close> for a positive step.\<close>

definition py_range0 :: "nat \<Rightarrow> nat \<Rightarrow> nat list" where
  "py_range0 n step = map (\<lambda>j. j * step) [0..<(n + step - 1) div step]"

text \<open>
  The body of the \<open>try\<close> for one chunk, from the reply to the new value of \<open>out\<close>: \<open>Inl\<close> is an
  exception raised inside the \<open>try\<close>, \<open>Inr\<close> the value of \<open>out\<close> when the body ends (by
  \<open>continue\<close> or by falling through).
\<close>

definition try_chunk :: "http_reply \<Rightarrow> pydict \<Rightarrow> py_error + pydict" where
  "try_chunk reply out =
     (case reply of
        ConnFail \<Rightarrow> Inl ConnectionError
      | Reply status body \<Rightarrow>
          if raise_for_status status then Inl HTTPError
          else (case body of
                  None \<Rightarrow> Inl JSONDecodeError
                | Some (PDict j) \<Rightarrow>
                    if dict_get j ''s'' \<noteq> PStr ''ok'' then Inr out
                    else
                      (let quotes = (if truthy (dict_get j ''quotes'')
                                     then dict_get j ''quotes'' else PDict [])
                       in (case quotes of
                             PDict q \<Rightarrow> Inr (dict_update out q)
                           | _ \<Rightarrow> Inr out))
                | Some _ \<Rightarrow> Inl AttributeError))"

text \<open>
  The loop over the chunks, with the request counter: \<open>except Exception: continue\<close> goes on
  with \<open>out\<close> as it was.
\<close>

fun chunk_loop :: "env \<Rightarrow> nat \<Rightarrow> string list list \<Rightarrow> pydict \<Rightarrow> pydict \<times> nat" where
  "chunk_loop e n [] out = (out, n)"
| "chunk_loop e n (chunk # chunks) out =
     (case try_chunk (env_quotes e n chunk) out of
        Inl err \<Rightarrow> chunk_loop e (Suc n) chunks out
      | Inr out' \<Rightarrow> chunk_loop e (Suc n) chunks out')"

definition chunks_of :: "string list \<Rightarrow> nat \<Rightarrow> string list list" where
  "chunks_of uniq chunk_size =
     map (\<lambda>i. take chunk_size (drop i uniq)) (py_range0 (length uniq) chunk_size)"

definition clean_symbols :: "string list \<Rightarrow> string list" where
  "clean_symbols symbols = dedupe [] (map py_strip (filter (\<lambda>s. s \<noteq> []) symbols))"

text \<open>
  \<open>fetch_quotes_batch_chunked\<close>: \<open>range\<close> raises on a step of 0 and is empty on a negative
  step. The result is the map and the request counter after the run.
\<close>

definition fetch_quotes_batch_chunked ::
  "env \<Rightarrow> nat \<Rightarrow> string list \<Rightarrow> int \<Rightarrow> py_error + pydict \<times> nat" where
  "fetch_quotes_batch_chunked e n symbols chunk_size =
     (let uniq = clean_symbols symbols in
      if chunk_size = 0 then Inl ValueError
      else if chunk_size < 0 then Inr ([], n)
      else Inr (chunk_loop e n (chunks_of uniq (nat chunk_size)) []))"

subsection \<open>pick_atm_from_quotes\<close>

record best =
  best_sym :: "string option"
  best_iv :: "real option"
  best_delta :: "real option"
  best_dist :: "real option"

fun pick_loop :: "(string \<Rightarrow> real option) \<Rightarrow> pydict \<Rightarrow> best \<Rightarrow> py_error + best" where
  "pick_loop sf [] b = Inr b"
| "pick_loop sf ((symb, PDict q) # rest) b =
     (let iv = safe_float sf (first (dict_get q ''iv''));
          delta = safe_float sf (first (dict_get q ''delta''))
      in if iv = None \<or> delta = None then pick_loop sf rest b
         else
           (let dist = \<bar>the delta - 0.5\<bar> in
            if best_dist b = None \<or> dist < the (best_dist b)
            then pick_loop sf rest
                   \<lparr>best_sym = Some symb, best_iv = iv, best_delta = delta, best_dist = Some dist\<rparr>
            else pick_loop sf rest b))"
| "pick_loop sf ((symb, other) # rest) b = Inl AttributeError"

definition pick_atm_from_quotes ::
  "(string \<Rightarrow> real option) \<Rightarrow> real \<Rightarrow> pydict
     \<Rightarrow> py_error + string option \<times> real option \<times> real option" where
  "pick_atm_from_quotes sf spot quotes =
     (case pick_loop sf quotes
             \<lparr>best_sym = None, best_iv = None, best_delta = None, best_dist = None\<rparr> of
        Inl err \<Rightarrow> Inl err
      | Inr b \<Rightarrow> Inr (best_sym b, best_iv b, best_delta b))"

subsection \<open>get_atm_iv_for_ticker\<close>

record atm =
  atm_ticker :: string
  atm_spot :: "real option"
  atm_iv :: "real option"
  atm_delta :: "real option"
  atm_option_symbol :: "string option"
  atm_reason :: "string option"

definition atm_failed :: "string \<Rightarrow> real option \<Rightarrow> string \<Rightarrow> atm" where
  "atm_failed t spot why =
     \<lparr>atm_ticker = t, atm_spot = spot, atm_iv = None, atm_delta = None,
      atm_option_symbol = None, atm_reason = Some why\<rparr>"

text \<open>
  \<open>get_atm_iv_for_ticker\<close>, with the request counter: every exception of the \<open>try\<close> ends in
  the reason \<open>err:\<close> followed by its text.
\<close>

definition get_atm_iv_for_ticker :: "env \<Rightarrow> nat \<Rightarrow> string \<Rightarrow> int \<Rightarrow> atm \<times> nat" where
  "get_atm_iv_for_ticker e n ticker max_quotes =
     (let t = py_upper (py_strip ticker) in
      case env_spot e t of
        Inl err \<Rightarrow> (atm_failed t None (''err:'' @ env_exc_text e err), n)
      | Inr None \<Rightarrow> (atm_failed t None ''no_spot'', n)
      | Inr (Some spot) \<Rightarrow>
          (case env_chain e t of
             Inl err \<Rightarrow> (atm_failed t None (''err:'' @ env_exc_text e err), n)
           | Inr chain \<Rightarrow>
               if chain = [] then (atm_failed t (Some spot) ''no_chain'', n)
               else
                 (case fetch_quotes_batch_chunked e n (py_slice_to max_quotes chain) 20 of
                    Inl err \<Rightarrow> (atm_failed t None (''err:'' @ env_exc_text e err), n)
                  | Inr (quotes, n') \<Rightarrow>
                      if quotes = [] then (atm_failed t (Some spot) ''no_quotes'', n')
                      else
                        (case pick_atm_from_quotes (env_str_float e) spot quotes of
                           Inl err \<Rightarrow> (atm_failed t None (''err:'' @ env_exc_text e err), n')
                         | Inr (symb, iv, delta) \<Rightarrow>
                             if iv = None then (atm_failed t (Some spot) ''no_iv'', n')
                             else
                               (\<lparr>atm_ticker = t, atm_spot = Some spot, atm_iv = iv,
                                 atm_delta = delta, atm_option_symbol = symb,
                                 atm_reason = None\<rparr>, n')))))"

subsection \<open>score_iv_gap\<close>

definition score_iv_gap :: "real option \<Rightarrow> real option \<Rightarrow> real option \<times> real option" where
  "score_iv_gap iv rv =
     (if iv = None \<or> rv = None \<or> rv = Some 0 then (None, None)
      else (let gap = the iv - the rv;
                score = the iv / the rv - 1
            in (Some gap, Some score)))"

section \<open>main.py: the scan endpoint\<close>

record scan_result =
  res_ticker :: string
  res_spot :: "real option"
  res_expiry :: "pyval option"
  res_atm_strike :: "pyval option"
  res_iv :: "real option"
  res_rv :: "real option"
  res_iv_gap :: "real option"
  res_score :: "real option"
  res_reason :: "string option"

text \<open>\<open>a or b\<close> on an optional string: \<open>a\<close> when it is a non-empty string, \<open>b\<close> otherwise.\<close>

definition str_or :: "string option \<Rightarrow> string option \<Rightarrow> string option" where
  "str_or a b = (case a of None \<Rightarrow> b | Some s \<Rightarrow> if s = [] then b else Some s)"

text \<open>
  One pass of the loop over the tickers: the dictionary appended to \<open>results\<close>. The
  dictionary of \<open>get_atm_iv_for_ticker\<close> has no key \<open>expiry\<close> or \<open>atm_strike\<close>, so
  \<open>atm.get\<close> gives \<open>None\<close> for both.
\<close>

definition scan_row :: "string \<Rightarrow> real option \<Rightarrow> atm \<Rightarrow> scan_result" where
  "scan_row t rv a =
     (let iv = atm_iv a;
          (gap, score) = score_iv_gap iv rv
      in \<lparr>res_ticker = t, res_spot = atm_spot a, res_expiry = None, res_atm_strike = None,
          res_iv = iv, res_rv = rv, res_iv_gap = gap, res_score = score,
          res_reason = str_or (atm_reason a)
                         (if iv \<noteq> None \<and> rv \<noteq> None then None
                          else Some ''missing_rv_or_iv'')\<rparr>)"

fun scan_loop ::
  "env \<Rightarrow> (string \<Rightarrow> real option) \<Rightarrow> nat \<Rightarrow> string list \<Rightarrow> scan_result list
     \<Rightarrow> scan_result list" where
  "scan_loop e rv_map n [] results = results"
| "scan_loop e rv_map n (t # ts) results =
     (let rv = rv_map t;
          (a, n') = get_atm_iv_for_ticker e n t 80
      in scan_loop e rv_map n' ts (results @ [scan_row t rv a]))"

text \<open>
  \<open>list.sort(key=..., reverse=True)\<close>: CPython reverses the list, sorts it stably in
  ascending order of the key and reverses it again, so the result is in descending order
  and equal keys keep their order.
\<close>

definition py_sort_reverse :: "('a \<Rightarrow> real) \<Rightarrow> 'a list \<Rightarrow> 'a list" where
  "py_sort_reverse key xs = rev (sort_key key (rev xs))"

text \<open>The key of the scan's sort, with the number that stands for a missing score.\<close>

definition sort_key_with :: "real \<Rightarrow> scan_result \<Rightarrow> real" where
  "sort_key_with sentinel x = (case res_score x of None \<Rightarrow> sentinel | Some s \<Rightarrow> s)"

definition rank_with :: "(scan_result \<Rightarrow> real) \<Rightarrow> int \<Rightarrow> scan_result list \<Rightarrow> scan_result list" where
  "rank_with key top_n results =
     (let sorted_results = py_sort_reverse key results;
          ranked = filter (\<lambda>r. res_score r \<noteq> None) sorted_results;
          missing = filter (\<lambda>r. res_score r = None) sorted_results
      in py_slice_to top_n ranked @ py_slice_to 10 missing)"

text \<open>The scan's own key puts \<open>-1\<close> for a missing score.\<close>

definition scan_sort_key :: "scan_result \<Rightarrow> real" where
  "scan_sort_key x = (if res_score x = None then - 1 else the (res_score x))"

definition scan_ranked :: "int \<Rightarrow> scan_result list \<Rightarrow> scan_result list" where
  "scan_ranked top_n results = rank_with scan_sort_key top_n results"

text \<open>The field \<open>ranked\<close> of the endpoint's response, from the stored volatilities.\<close>

definition scan_sp500 :: "env \<Rightarrow> (string \<Rightarrow> real option) \<Rightarrow> string list \<Rightarrow> int \<Rightarrow> scan_result list" where
  "scan_sp500 e rv_map tickers top_n = scan_ranked top_n (scan_loop e rv_map 0 tickers [])"

section \<open>backfill_realized_vol.py: the candle fetch\<close>

text \<open>
  \<open>md_get_candles_daily\<close>: the loop over \<open>attempt\<close> in \<open>range(1, 6)\<close>. \<open>net k\<close> is what
  \<open>session.get\<close> gives on attempt \<open>k\<close>; the state is the list of the delays slept so far.
  The result is the decoded body, or the \<open>RuntimeError\<close> raised after the loop, with the
  delays.
\<close>

fun candles_loop ::
  "(nat \<Rightarrow> http_reply) \<Rightarrow> nat list \<Rightarrow> real list \<Rightarrow> (py_error + pyval) \<times> real list" where
  "candles_loop net [] sleeps = (Inl RuntimeError, sleeps)"
| "candles_loop net (attempt # attempts) sleeps =
     (case net attempt of
        ConnFail \<Rightarrow> candles_loop net attempts (sleeps @ [1.0 * real attempt])
      | Reply status body \<Rightarrow>
          if status = 429 then candles_loop net attempts (sleeps @ [1.5 * real attempt])
          else if raise_for_status status
          then candles_loop net attempts (sleeps @ [1.0 * real attempt])
          else (case body of
                  None \<Rightarrow> candles_loop net attempts (sleeps @ [1.0 * real attempt])
                | Some j \<Rightarrow> (Inr j, sleeps)))"

definition md_get_candles_daily :: "(nat \<Rightarrow> http_reply) \<Rightarrow> (py_error + pyval) \<times> real list" where
  "md_get_candles_daily net = candles_loop net [1..<6] []"

section \<open>The claims' own notions\<close>

subsection \<open>Selection of the at-the-money quote\<close>

text \<open>
  The eligible quotes of a map, in the map's order: symbol, iv and delta of every quote
  whose iv and delta are both present after \<open>_first\<close> and \<open>_safe_float\<close>.
\<close>

fun eligible :: "(string \<Rightarrow> real option) \<Rightarrow> pydict \<Rightarrow> (string \<times> real \<times> real) list" where
  "eligible sf [] = []"
| "eligible sf ((symb, q) # rest) =
     (case q of
        PDict d \<Rightarrow>
          (case (safe_float sf (first (dict_get d ''iv'')),
                 safe_float sf (first (dict_get d ''delta''))) of
             (Some i, Some dl) \<Rightarrow> (symb, i, dl) # eligible sf rest
           | _ \<Rightarrow> eligible sf rest)
      | _ \<Rightarrow> eligible sf rest)"

text \<open>The distance of a quote's delta from 0.50.\<close>

definition atm_dist :: "string \<times> real \<times> real \<Rightarrow> real" where
  "atm_dist x = \<bar>snd (snd x) - 0.5\<bar>"

text \<open>
  The quote closest to 0.50, the first one among equals: the first quote of the list that
  is at most as far from 0.50 as every quote of the list.
\<close>

definition closest_to_half :: "(string \<times> real \<times> real) list \<Rightarrow> (string \<times> real \<times> real) option" where
  "closest_to_half xs = find (\<lambda>x. \<forall>y \<in> set xs. atm_dist x \<le> atm_dist y) xs"

text \<open>The running best of the selection loop, on the eligible quotes alone.\<close>

fun best_of ::
  "(string \<times> real \<times> real) list \<Rightarrow> (string \<times> real \<times> real) option
     \<Rightarrow> (string \<times> real \<times> real) option" where
  "best_of [] b = b"
| "best_of (x # xs) None = best_of xs (Some x)"
| "best_of (x # xs) (Some y) = best_of xs (if atm_dist x < atm_dist y then Some x else Some y)"

definition best_rec :: "(string \<times> real \<times> real) option \<Rightarrow> best" where
  "best_rec b =
     (case b of
        None \<Rightarrow> \<lparr>best_sym = None, best_iv = None, best_delta = None, best_dist = None\<rparr>
      | Some (s, i, d) \<Rightarrow>
          \<lparr>best_sym = Some s, best_iv = Some i, best_delta = Some d,
           best_dist = Some \<bar>d - 0.5\<bar>\<rparr>)"

subsection \<open>Failure of a quote request\<close>

text \<open>
  A chunk's request fails when it raises (the call itself, the status check, the decoding
  of the body, or the body not being a dictionary) or when the reply's status field \<open>s\<close>
  is not \<open>ok\<close>.
\<close>

definition request_failed :: "http_reply \<Rightarrow> bool" where
  "request_failed reply =
     (case reply of
        ConnFail \<Rightarrow> True
      | Reply status body \<Rightarrow>
          raise_for_status status \<or>
          (case body of
             None \<Rightarrow> True
           | Some (PDict j) \<Rightarrow> dict_get j ''s'' \<noteq> PStr ''ok''
           | Some _ \<Rightarrow> True))"

text \<open>The quotes a reply carries: the dictionary under \<open>quotes\<close> of a reply that did not fail.\<close>

definition reply_quotes :: "http_reply \<Rightarrow> pydict option" where
  "reply_quotes reply =
     (if request_failed reply then None
      else (case reply of
              Reply status (Some (PDict j)) \<Rightarrow>
                (case dict_get j ''quotes'' of
                   PDict q \<Rightarrow> Some q
                 | v \<Rightarrow> if truthy v then None else Some [])
            | _ \<Rightarrow> None))"

subsection \<open>Retrying\<close>

text \<open>
  An attempt of the candle fetch fails when the call raises, the status is 429 or an
  error status, or the body does not decode. The delay after a failed attempt is the
  attempt number times 1.5 after a 429 and times 1.0 otherwise.
\<close>

definition attempt_fails :: "http_reply \<Rightarrow> bool" where
  "attempt_fails reply =
     (case reply of
        ConnFail \<Rightarrow> True
      | Reply status body \<Rightarrow> status = 429 \<or> raise_for_status status \<or> body = None)"

definition rate_limited :: "http_reply \<Rightarrow> bool" where
  "rate_limited reply = (case reply of ConnFail \<Rightarrow> False | Reply status body \<Rightarrow> status = 429)"

definition backoff :: "(nat \<Rightarrow> http_reply) \<Rightarrow> nat \<Rightarrow> real" where
  "backoff net attempt = (if rate_limited (net attempt) then 1.5 else 1.0) * real attempt"

definition reply_body :: "http_reply \<Rightarrow> pyval" where
  "reply_body reply = (case reply of Reply status (Some j) \<Rightarrow> j | _ \<Rightarrow> PNone)"

subsection \<open>The quotes a fetch merges\<close>


section \<open>Sample inputs\<close>

text \<open>A reply to a quote request that carries the given quotes.\<close>

definition ok_reply :: "pydict \<Rightarrow> http_reply" where
  "ok_reply quotes = Reply 200 (Some (PDict [(''s'', PStr ''ok''), (''quotes'', PDict quotes)]))"

text \<open>The two quotes of the specification's scenario, fields wrapped in lists as the provider sends them.\<close>

definition scenario_quotes :: pydict where
  "scenario_quotes =
     [(''AAPL240621C150'', PDict [(''iv'', PList [PNum 0.32]), (''delta'', PList [PNum 0.51])]),
      (''AAPL240621C160'', PDict [(''iv'', PList [PNum 0.30]), (''delta'', PList [PNum 0.35])])]"

text \<open>A provider with a spot of 152 and a chain of two symbols, answering every quote request with \<open>reply\<close>.\<close>

definition provider :: "(nat \<Rightarrow> http_reply) \<Rightarrow> env" where
  "provider reply =
     \<lparr>env_spot = (\<lambda>t. Inr (Some 152)),
      env_chain = (\<lambda>t. Inr [''AAPL240621C150'', ''AAPL240621C160'']),
      env_quotes = (\<lambda>n chunk. reply n),
      env_str_float = (\<lambda>s. None),
      env_exc_text = (\<lambda>err. [])\<rparr>"

text \<open>Quotes without an implied volatility, and quotes with two deltas equally far from 0.50.\<close>

definition bare_quotes :: pydict where
  "bare_quotes =
     [(''AAPL240621C150'', PDict [(''iv'', PList [PNone]), (''delta'', PList [PNum 0.51])]),
      (''AAPL240621C160'', PDict [(''bid'', PList [PNum 1.2])])]"

definition tied_quotes :: pydict where
  "tied_quotes =
     [(''A'', PDict [(''iv'', PNum 0.2), (''delta'', PNum 0.9)]),
      (''B'', PDict [(''iv'', PNum 0.3), (''delta'', PNum 0.75)]),
      (''C'', PDict [(''iv'', PNum 0.4), (''delta'', PNum 0.25)])]"

text \<open>
  Replies to the quote requests of a run whose first request gets \<open>failure\<close> and whose
  later requests succeed; and a candle body.
\<close>

definition flaky :: "http_reply \<Rightarrow> nat \<Rightarrow> http_reply" where
  "flaky failure n = (if n = 0 then failure else ok_reply scenario_quotes)"

definition candle_body :: pyval where
  "candle_body = PDict [(''s'', PStr ''ok''), (''t'', PList [PNum 1700000000]), (''c'', PList [PNum 100])]"

text \<open>Stored volatilities for four tickers, one of them missing.\<close>

definition sample_rv :: "string \<Rightarrow> real option" where
  "sample_rv t =
     (if t = ''A'' then Some 0.16 else if t = ''B'' then None
      else if t = ''C'' then Some 0.08 else Some 0.32)"

section \<open>Properties of the realized-volatility estimator\<close>

lemma quotients_Cons2: "quotients (x0 # x1 # ys) = x1 / x0 # quotients (x1 # ys)"
proof -
  have "[0..<Suc (length ys)] = 0 # map Suc [0..<length ys]"
    by (simp add: upt_conv_Cons map_Suc_upt del: upt_Suc)
  then show ?thesis
    by (simp add: quotients_def comp_def del: upt_Suc)
qed

lemma quotients_short [simp]: "quotients [] = []" "quotients [x] = []"
  by (simp_all add: quotients_def)

lemma length_quotients: "length (quotients cs) = length cs - 1"
  by (simp add: quotients_def)

lemma length_spec_log_returns: "length (spec_log_returns cs) = length cs - 1"
  by (simp add: spec_log_returns_def length_quotients)

lemma valid_prefix_Cons:
  "valid_prefix (c # cs) = (if invalid_close c then [] else the c # valid_prefix cs)"
  by (simp add: valid_prefix_def)

lemma valid_prefix_all:
  assumes "\<forall>c \<in> set cs. \<not> invalid_close c"
  shows "valid_prefix cs = map the cs"
proof -
  have "takeWhile (\<lambda>c. \<not> invalid_close c) cs = cs"
    using assms by (simp add: takeWhile_eq_all_conv)
  then show ?thesis unfolding valid_prefix_def by (rule arg_cong)
qed

lemma math_log_quotient:
  assumes "0 < c0" and "0 < c1"
  shows "math_log (close_quotient c1 c0) =
           (if rounds_to_zero (c1 / c0) then Inl ValueError
            else Inr (if rounds_to_inf (c1 / c0) then PosInf else Fin (ln (c1 / c0))))"
proof -
  have "0 < c1 / c0" using assms by simp
  then show ?thesis by (simp add: close_quotient_def)
qed

text \<open>
  What the loop does, in one formula: it raises when a quotient of consecutive closes
  before the first invalid close rounds to \<open>0.0\<close>; otherwise it returns \<open>None\<close> when there
  are two closes or more and one of them is invalid; otherwise it returns the logarithms
  of all the quotients, \<open>inf\<close> for a quotient that rounds to \<open>inf\<close>.
\<close>

lemma log_returns_char:
  "log_returns cs =
     (if \<exists>q \<in> set (quotients (valid_prefix cs)). rounds_to_zero q then Inl ValueError
      else if 2 \<le> length cs \<and> (\<exists>c \<in> set cs. invalid_close c) then Inr None
      else Inr (Some (map (\<lambda>q. if rounds_to_inf q then PosInf else Fin (ln q))
                        (quotients (map the cs)))))"
proof (induction cs rule: log_returns.induct)
  case (1 c0 c1 cs)
  show ?case
  proof (cases "invalid_close c0 \<or> invalid_close c1")
    case True
    then have "c0 = None \<or> c1 = None \<or> the c0 \<le> 0 \<or> the c1 \<le> 0"
      by (auto simp: invalid_close_def split: option.splits)
    then have l: "log_returns (c0 # c1 # cs) = Inr None" by simp
    have "quotients (valid_prefix (c0 # c1 # cs)) = []"
      using True by (auto simp: valid_prefix_Cons)
    with True l show ?thesis by auto
  next
    case False
    then have v: "\<not> (c0 = None \<or> c1 = None \<or> the c0 \<le> 0 \<or> the c1 \<le> 0)"
      and pos: "0 < the c0" "0 < the c1"
      by (auto simp: invalid_close_def split: option.splits)
    let ?q = "the c1 / the c0"
    have vp: "quotients (valid_prefix (c0 # c1 # cs)) = ?q # quotients (valid_prefix (c1 # cs))"
      using False by (simp add: valid_prefix_Cons quotients_Cons2)
    have qs: "quotients (map the (c0 # c1 # cs)) = ?q # quotients (map the (c1 # cs))"
      by (simp add: quotients_Cons2)
    have inv: "(2 \<le> length (c0 # c1 # cs) \<and> (\<exists>c \<in> set (c0 # c1 # cs). invalid_close c))
                 \<longleftrightarrow> (2 \<le> length (c1 # cs) \<and> (\<exists>c \<in> set (c1 # cs). invalid_close c))"
      using False by (cases cs) auto
    note ml = math_log_quotient [OF pos]
    show ?thesis
    proof (cases "rounds_to_zero ?q")
      case True
      with ml have "math_log (close_quotient (the c1) (the c0)) = Inl ValueError"
        by simp
      then have "log_returns (c0 # c1 # cs) = Inl ValueError"
        by (simp only: log_returns.simps v if_False sum.case)
      moreover have "\<exists>q \<in> set (quotients (valid_prefix (c0 # c1 # cs))). rounds_to_zero q"
        using True vp by simp
      ultimately show ?thesis by (simp only: if_True)
    next
      case nz: False
      let ?r = "if rounds_to_inf ?q then PosInf else Fin (ln ?q)"
      from ml nz have ml': "math_log (close_quotient (the c1) (the c0)) = Inr ?r"
        by simp
      have step: "log_returns (c0 # c1 # cs) =
                    (case log_returns (c1 # cs) of
                       Inl err \<Rightarrow> Inl err
                     | Inr None \<Rightarrow> Inr None
                     | Inr (Some rets) \<Rightarrow> Inr (Some (?r # rets)))"
        by (simp only: log_returns.simps v if_False sum.case ml')
      have ex: "(\<exists>q \<in> set (quotients (valid_prefix (c0 # c1 # cs))). rounds_to_zero q)
                  \<longleftrightarrow> (\<exists>q \<in> set (quotients (valid_prefix (c1 # cs))). rounds_to_zero q)"
        using nz vp by simp
      show ?thesis
        unfolding step ex inv qs "1.IH" [OF v ml']
        by auto
    qed
  qed
qed (simp_all add: valid_prefix_def)

lemma sum_squares_nonneg: "0 \<le> (\<Sum>x\<leftarrow>xs. (x - (m::real))\<^sup>2)"
  by (induction xs) auto

lemma slice_from_last_n:
  "0 < W \<Longrightarrow> py_slice_from (- W) xs = last_n (nat W) xs"
  by (auto simp: py_slice_from_def last_n_def Let_def max_def nat_diff_distrib' intro!: arg_cong2[where f=drop])

lemma length_last_n: "n \<le> length xs \<Longrightarrow> length (last_n n xs) = n"
  by (simp add: last_n_def)

lemma last_n_map: "last_n n (map f xs) = map f (last_n n xs)"
  by (simp add: last_n_def drop_map)

lemma sample_variance_nonneg: "2 \<le> length xs \<Longrightarrow> 0 \<le> sample_variance xs"
  unfolding sample_variance_def
  by (intro divide_nonneg_nonneg sum_squares_nonneg) simp

lemma foldl_fadd_Fin: "foldl fadd (Fin a) (map Fin xs) = Fin (a + sum_list xs)"
  by (induction xs arbitrary: a) (simp_all add: add.assoc)

lemma fsum_Fin: "fsum (map Fin xs) = Fin (sum_list xs)"
  by (simp add: fsum_def foldl_fadd_Fin)

lemma squares_Fin:
  "map (\<lambda>x. fsq (fsub x (Fin m))) (map Fin xs) = map Fin (map (\<lambda>x. (x - m)\<^sup>2) xs)"
  by (simp add: fsub_def)

text \<open>The statistics of a window of finite returns.\<close>

lemma window_vol_finite:
  assumes "2 \<le> length xs"
  shows "(case fdiv_int (fsum (map Fin xs)) (int (length (map Fin xs))) of
            Inl err \<Rightarrow> Inl err
          | Inr mean \<Rightarrow>
              (case fdiv_int (fsum (map (\<lambda>x. fsq (fsub x mean)) (map Fin xs)))
                      (int (length (map Fin xs)) - 1) of
                 Inl err \<Rightarrow> Inl err
               | Inr var \<Rightarrow>
                   (case math_sqrt (fmul252 var) of
                      Inl err \<Rightarrow> Inl err
                    | Inr rv \<Rightarrow> Inr (Some rv))))
         = Inr (Some (Fin (sqrt (252 * sample_variance xs))))"
proof -
  let ?m = "sum_list xs / real (length xs)"
  have n0: "int (length xs) \<noteq> 0" "int (length xs) - 1 \<noteq> 0"
    using assms by auto
  have mean: "fdiv_int (fsum (map Fin xs)) (int (length (map Fin xs))) = Inr (Fin ?m)"
    using n0 by (simp add: fsum_Fin)
  have var: "fdiv_int (fsum (map (\<lambda>x. fsq (fsub x (Fin ?m))) (map Fin xs)))
               (int (length (map Fin xs)) - 1) = Inr (Fin (sample_variance xs))"
    using n0 assms unfolding squares_Fin fsum_Fin
    by (simp add: sample_variance_def)
  have nn: "\<not> sample_variance xs * 252 < 0"
    using sample_variance_nonneg [OF assms] by simp
  have root: "math_sqrt (fmul252 (Fin (sample_variance xs))) =
                Inr (Fin (sqrt (252 * sample_variance xs)))"
    using nn by (simp add: mult.commute)
  show ?thesis
    by (simp only: mean var root sum.case)
qed

lemma realized_vol_short:
  "int (length closes) < W + 1 \<Longrightarrow> realized_vol_annualized_from_closes closes W = Inr None"
  by (simp add: realized_vol_annualized_from_closes_def)

lemma realized_vol_invalid:
  assumes "2 \<le> length closes" and "c \<in> set closes" and "invalid_close c"
    and "\<forall>q \<in> set (quotients (valid_prefix closes)). \<not> rounds_to_zero q"
  shows "realized_vol_annualized_from_closes closes W = Inr None"
proof -
  have "log_returns closes = Inr None"
    using assms by (subst log_returns_char) auto
  then show ?thesis
    by (simp add: realized_vol_annualized_from_closes_def)
qed

lemma positive_not_invalid: "(\<exists>x. c = Some x \<and> 0 < x) \<longleftrightarrow> \<not> invalid_close c"
  by (cases c) (auto simp: invalid_close_def)

lemma realized_vol_valid:
  assumes W: "2 \<le> W" and len: "W + 1 \<le> int (length closes)"
    and pos: "\<forall>c \<in> set closes. \<not> invalid_close c"
    and nz: "\<forall>q \<in> set (quotients (map the closes)). \<not> rounds_to_zero q"
    and ni: "\<forall>q \<in> set (last_n (nat W) (quotients (map the closes))). \<not> rounds_to_inf q"
  shows "realized_vol_annualized_from_closes closes W =
           Inr (Some (Fin (sqrt (252 * sample_variance (last_n (nat W) (spec_log_returns (map the closes)))))))"
proof -
  let ?F = "\<lambda>q. if rounds_to_inf q then PosInf else Fin (ln q)"
  define qs where "qs = quotients (map the closes)"
  define xs where "xs = last_n (nat W) (spec_log_returns (map the closes))"
  have lr: "log_returns closes = Inr (Some (map ?F qs))"
    using pos nz by (subst log_returns_char) (simp add: valid_prefix_all qs_def)
  have lqs: "nat W \<le> length qs"
    using len W by (simp add: qs_def length_quotients)
  have "py_slice_from (- W) (map ?F qs) = map ?F (last_n (nat W) qs)"
    using W by (simp add: slice_from_last_n last_n_map)
  also have "\<dots> = map (\<lambda>q. Fin (ln q)) (last_n (nat W) qs)"
    using ni by (intro map_cong) (simp_all add: qs_def)
  also have "\<dots> = map Fin xs"
    by (simp add: xs_def spec_log_returns_def last_n_map qs_def)
  finally have sl: "py_slice_from (- W) (map ?F qs) = map Fin xs" .
  have lx: "length xs = nat W"
    using lqs by (simp add: xs_def spec_log_returns_def length_last_n qs_def)
  then have lx2: "2 \<le> length xs" using W by simp
  have g1: "\<not> int (length closes) < W + 1" using len by simp
  have g2: "\<not> int (length (map Fin xs)) < W" using lx W by simp
  have "realized_vol_annualized_from_closes closes W =
          Inr (Some (Fin (sqrt (252 * sample_variance xs))))"
    unfolding realized_vol_annualized_from_closes_def
    by (simp only: g1 g2 lr sl Let_def if_False sum.case option.case
          window_vol_finite [OF lx2])
  then show ?thesis by (simp only: xs_def)
qed


text \<open>
  Claim C1, as amended. A series shorter than \<open>W + 1\<close> gives \<open>None\<close>. For \<open>W \<ge> 2\<close>, a series of at
  least \<open>W + 1\<close> closes that are all present and positive, in which no quotient of
  consecutive closes rounds to \<open>0.0\<close> and none of the last \<open>W\<close> quotients rounds to \<open>inf\<close>,
  gives a non-negative number, the square root of 252 times the sample variance (divisor
  \<open>W - 1\<close>) of the last \<open>W\<close> log returns.
\<close>

theorem realized_vol_sample_variance:
  "(int (length closes) < W + 1 \<longrightarrow>
      realized_vol_annualized_from_closes closes W = Inr None) \<and>
   (2 \<le> W \<and> W + 1 \<le> int (length closes) \<and> (\<forall>c \<in> set closes. \<exists>x. c = Some x \<and> 0 < x)
      \<and> (\<forall>q \<in> set (quotients (map the closes)). \<not> rounds_to_zero q)
      \<and> (\<forall>q \<in> set (last_n (nat W) (quotients (map the closes))). \<not> rounds_to_inf q) \<longrightarrow>
      realized_vol_annualized_from_closes closes W =
        Inr (Some (Fin (sqrt (252 * sample_variance (last_n (nat W) (spec_log_returns (map the closes)))))))
      \<and> 0 \<le> sqrt (252 * sample_variance (last_n (nat W) (spec_log_returns (map the closes)))))"
proof (intro conjI impI)
  assume "int (length closes) < W + 1"
  then show "realized_vol_annualized_from_closes closes W = Inr None"
    by (rule realized_vol_short)
next
  assume h: "2 \<le> W \<and> W + 1 \<le> int (length closes) \<and> (\<forall>c \<in> set closes. \<exists>x. c = Some x \<and> 0 < x)
      \<and> (\<forall>q \<in> set (quotients (map the closes)). \<not> rounds_to_zero q)
      \<and> (\<forall>q \<in> set (last_n (nat W) (quotients (map the closes))). \<not> rounds_to_inf q)"
  then have "\<forall>c \<in> set closes. \<not> invalid_close c"
    using positive_not_invalid by blast
  with h show "realized_vol_annualized_from_closes closes W =
        Inr (Some (Fin (sqrt (252 * sample_variance (last_n (nat W) (spec_log_returns (map the closes)))))))"
    by (intro realized_vol_valid) simp_all
next
  assume h: "2 \<le> W \<and> W + 1 \<le> int (length closes) \<and> (\<forall>c \<in> set closes. \<exists>x. c = Some x \<and> 0 < x)
      \<and> (\<forall>q \<in> set (quotients (map the closes)). \<not> rounds_to_zero q)
      \<and> (\<forall>q \<in> set (last_n (nat W) (quotients (map the closes))). \<not> rounds_to_inf q)"
  then have W: "2 \<le> W" and len: "W + 1 \<le> int (length closes)"
    by simp_all
  have "nat W \<le> length closes - 1"
    using W len by linarith
  then have "nat W \<le> length (spec_log_returns (map the closes))"
    by (simp add: length_spec_log_returns)
  then have "length (last_n (nat W) (spec_log_returns (map the closes))) = nat W"
    by (rule length_last_n)
  moreover have "2 \<le> nat W"
    using W by linarith
  ultimately have "2 \<le> length (last_n (nat W) (spec_log_returns (map the closes)))"
    by simp
  then have "0 \<le> sample_variance (last_n (nat W) (spec_log_returns (map the closes)))"
    by (rule sample_variance_nonneg)
  then show "0 \<le> sqrt (252 * sample_variance (last_n (nat W) (spec_log_returns (map the closes))))"
    by simp
qed

theorem realized_vol_sample_variance_witness:
  "realized_vol_annualized_from_closes [Some 100, Some 101] 2 = Inr None \<and>
   realized_vol_annualized_from_closes [Some 100, Some 101, Some 99, Some 102] 2 =
     Inr (Some (Fin (sqrt (252 * sample_variance [ln (99 / 101), ln (102 / 99)])))) \<and>
   0 \<le> sqrt (252 * sample_variance [ln (99 / 101), ln (102 / 99)])"
proof -
  have q: "quotients (map the [Some 100, Some 101, Some 99, Some (102::real)]) =
             [101 / 100, 99 / 101, 102 / 99]"
    by (simp add: quotients_def upt_conv_Cons)
  have e: "last_n (nat 2) (spec_log_returns (map the [Some 100, Some 101, Some 99, Some 102]))
             = [ln (99 / 101), ln (102 / 99 :: real)]"
    unfolding spec_log_returns_def q by (simp add: last_n_def)
  have z: "\<forall>q \<in> set (quotients (map the [Some 100, Some 101, Some 99, Some (102::real)])).
             \<not> rounds_to_zero q"
    unfolding q by (simp add: rounds_to_zero_def)
  have i: "\<forall>q \<in> set (last_n (nat 2) (quotients (map the [Some 100, Some 101, Some 99, Some (102::real)]))).
             \<not> rounds_to_inf q"
    unfolding q by (simp add: rounds_to_inf_def last_n_def)
  show ?thesis
    using realized_vol_sample_variance [of "[Some 100, Some 101]" 2]
      realized_vol_sample_variance [of "[Some 100, Some 101, Some 99, Some 102]" 2] z i
    unfolding e by simp
qed

text \<open>
  Claim C1 as stated fails on positive closes whose quotient leaves the range of a
  double: a quotient that rounds to \<open>0.0\<close> makes \<open>math.log\<close> raise, and a quotient in the
  window that rounds to \<open>inf\<close> makes the result NaN.
\<close>

theorem realized_vol_quotient_underflow:
  "realized_vol_annualized_from_closes [Some (2 ^ 600), Some (1 / 2 ^ 600), Some (1 / 2 ^ 600)] 2 =
     Inl ValueError \<and>
   realized_vol_annualized_from_closes [Some (1 / 2 ^ 600), Some (2 ^ 600), Some (2 ^ 600)] 2 =
     Inr (Some NaN)"
  by (simp add: realized_vol_annualized_from_closes_def close_quotient_def rounds_to_zero_def
        rounds_to_inf_def py_slice_from_def fsum_def fsub_def)

text \<open>
  Claim C5, as amended. For \<open>W \<ge> 2\<close>, a missing or non-positive close among the last \<open>W + 1\<close>
  closes (the closes that enter the trailing window of \<open>W\<close> returns) makes the result
  \<open>None\<close>, the invalid return is not skipped, provided that, when the series has at least
  \<open>W + 1\<close> closes, no quotient of consecutive closes before the first invalid close rounds
  to \<open>0.0\<close>.
\<close>

theorem realized_vol_poisoned_window:
  assumes "2 \<le> W" and "i < length closes"
    and "int (length closes) - (W + 1) \<le> int i"
    and "invalid_close (closes ! i)"
    and "W + 1 \<le> int (length closes) \<longrightarrow>
           (\<forall>q \<in> set (quotients (valid_prefix closes)). \<not> rounds_to_zero q)"
  shows "realized_vol_annualized_from_closes closes W = Inr None"
proof (cases "int (length closes) < W + 1")
  case True
  then show ?thesis by (rule realized_vol_short)
next
  case False
  with assms(1) have "2 \<le> length closes" by simp
  moreover have "closes ! i \<in> set closes" using assms(2) by simp
  moreover have "\<forall>q \<in> set (quotients (valid_prefix closes)). \<not> rounds_to_zero q"
    using False assms(5) by simp
  ultimately show ?thesis using assms(4) by (intro realized_vol_invalid)
qed

theorem realized_vol_poisoned_window_witness:
  "realized_vol_annualized_from_closes [Some 100, Some 101, Some 0, Some 102] 2 = Inr None \<and>
   realized_vol_annualized_from_closes [Some 100, Some 101, None, Some 102] 2 = Inr None"
proof -
  have a: "quotients (valid_prefix [Some 100, Some 101, Some 0, Some (102::real)]) = [101 / 100]"
    by (simp add: valid_prefix_Cons invalid_close_def quotients_Cons2)
  have b: "quotients (valid_prefix [Some 100, Some 101, None, Some (102::real)]) = [101 / 100]"
    by (simp add: valid_prefix_Cons invalid_close_def quotients_Cons2)
  show ?thesis
    using realized_vol_poisoned_window [of 2 2 "[Some 100, Some 101, Some 0, Some 102]"]
      realized_vol_poisoned_window [of 2 2 "[Some 100, Some 101, None, Some 102]"]
    unfolding a b by (simp add: invalid_close_def rounds_to_zero_def)
qed

text \<open>
  Claim C5 as stated fails when an earlier pair of valid closes has a quotient that rounds
  to \<open>0.0\<close>: \<open>math.log\<close> raises at that pair before the loop reaches the invalid close.
\<close>

theorem realized_vol_poisoned_window_raises:
  "realized_vol_annualized_from_closes [Some (2 ^ 600), Some (1 / 2 ^ 600), Some (- 5)] 2 =
     Inl ValueError"
  by (simp add: realized_vol_annualized_from_closes_def close_quotient_def rounds_to_zero_def)

text \<open>
  Claim C10, as amended. A missing or non-positive close in any consecutive pair of the
  series makes the result \<open>None\<close>, whatever the window, also when the pair lies before the
  trailing window and every return inside the window is valid (the witness is such a
  series), provided that, when the series has at least \<open>W + 1\<close> closes, no quotient of
  consecutive closes before the first invalid close rounds to \<open>0.0\<close>.
\<close>

theorem realized_vol_bad_pair_anywhere:
  assumes "Suc i < length closes"
    and "invalid_close (closes ! i) \<or> invalid_close (closes ! Suc i)"
    and "W + 1 \<le> int (length closes) \<longrightarrow>
           (\<forall>q \<in> set (quotients (valid_prefix closes)). \<not> rounds_to_zero q)"
  shows "realized_vol_annualized_from_closes closes W = Inr None"
proof (cases "int (length closes) < W + 1")
  case True
  then show ?thesis by (rule realized_vol_short)
next
  case False
  have len: "2 \<le> length closes" using assms(1) by simp
  have nz: "\<forall>q \<in> set (quotients (valid_prefix closes)). \<not> rounds_to_zero q"
    using False assms(3) by simp
  have mem: "closes ! i \<in> set closes" "closes ! Suc i \<in> set closes"
    using assms(1) by simp_all
  from assms(2) show ?thesis
  proof
    assume "invalid_close (closes ! i)"
    with len mem(1) show ?thesis using nz by (intro realized_vol_invalid)
  next
    assume "invalid_close (closes ! Suc i)"
    with len mem(2) show ?thesis using nz by (intro realized_vol_invalid)
  qed
qed

theorem realized_vol_bad_pair_anywhere_witness:
  "realized_vol_annualized_from_closes [Some (- 5), Some 100, Some 101, Some 102] 2 = Inr None \<and>
   realized_vol_annualized_from_closes [Some 100, Some 101, Some 102] 2 \<noteq> Inr None"
proof -
  have q: "quotients (map the [Some 100, Some 101, Some (102::real)]) = [101 / 100, 102 / 101]"
    by (simp add: quotients_Cons2)
  have "\<forall>c \<in> set [Some 100, Some 101, Some (102::real)]. \<not> invalid_close c"
    by (simp add: invalid_close_def)
  moreover have "\<forall>q \<in> set (quotients (map the [Some 100, Some 101, Some (102::real)])).
                   \<not> rounds_to_zero q"
    unfolding q by (simp add: rounds_to_zero_def)
  moreover have "\<forall>q \<in> set (last_n (nat 2) (quotients (map the [Some 100, Some 101, Some (102::real)]))).
                   \<not> rounds_to_inf q"
    unfolding q by (simp add: rounds_to_inf_def last_n_def)
  ultimately have "realized_vol_annualized_from_closes [Some 100, Some 101, Some 102] 2 \<noteq> Inr None"
    by (subst realized_vol_valid) simp_all
  moreover have "quotients (valid_prefix [Some (- 5), Some 100, Some 101, Some (102::real)]) = []"
    by (simp add: valid_prefix_Cons invalid_close_def)
  ultimately show ?thesis
    using realized_vol_bad_pair_anywhere [of 0 "[Some (- 5), Some 100, Some 101, Some 102]" 2]
    by (simp add: invalid_close_def)
qed

text \<open>
  Claim C10 as stated fails when a pair of valid closes before the invalid pair has a
  quotient that rounds to \<open>0.0\<close>: \<open>math.log\<close> raises there, and the invalid pair is never
  reached.
\<close>

theorem realized_vol_bad_pair_raises:
  "realized_vol_annualized_from_closes
     [Some (2 ^ 600), Some (1 / 2 ^ 600), Some 1, Some (- 5), Some 1, Some 1, Some 1] 2 =
     Inl ValueError"
  by (simp add: realized_vol_annualized_from_closes_def close_quotient_def rounds_to_zero_def)

text \<open>
  Claim C6. With a window of 1 and two valid closes the estimator does not return: the
  variance divides by \<open>len(w) - 1 = 0\<close> and Python raises \<open>ZeroDivisionError\<close>.
\<close>

theorem realized_vol_window_one_raises:
  "realized_vol_annualized_from_closes [Some 100, Some 101] 1 = Inl ZeroDivisionError"
  by (simp add: realized_vol_annualized_from_closes_def close_quotient_def rounds_to_zero_def
        rounds_to_inf_def py_slice_from_def fsum_def fsub_def)

section \<open>Properties of the scan\<close>

lemma insort_key_cong_on:
  "f x = g x \<Longrightarrow> \<forall>y \<in> set xs. f y = g y \<Longrightarrow> insort_key f x xs = insort_key g x xs"
  by (induction xs) auto

lemma sort_key_cong_on:
  "\<forall>y \<in> set xs. f y = g y \<Longrightarrow> sort_key f xs = sort_key g xs"
proof (induction xs)
  case Nil
  then show ?case by simp
next
  case (Cons x xs)
  then have "sort_key f xs = sort_key g xs" by simp
  moreover have "insort_key f x (sort_key g xs) = insort_key g x (sort_key g xs)"
    using Cons.prems by (intro insort_key_cong_on) simp_all
  ultimately show ?case by simp
qed

lemma filter_py_sort_reverse:
  "filter P (py_sort_reverse key xs) = py_sort_reverse key (filter P xs)"
  by (simp add: py_sort_reverse_def rev_filter [symmetric] filter_sort)

lemma py_sort_reverse_cong_on:
  "\<forall>y \<in> set xs. f y = g y \<Longrightarrow> py_sort_reverse f xs = py_sort_reverse g xs"
  unfolding py_sort_reverse_def by (intro arg_cong [where f = rev] sort_key_cong_on) simp

lemma py_sort_reverse_const: "py_sort_reverse (\<lambda>x. c) xs = xs"
  by (simp add: py_sort_reverse_def sort_key_const)

lemma py_sort_reverse_desc:
  "sorted_wrt (\<lambda>a b. key b \<le> key a) (py_sort_reverse key xs)"
proof -
  have "sorted (map key (sort_key key (rev xs)))" by (rule sorted_sort_key)
  then show ?thesis
    by (simp add: py_sort_reverse_def sorted_wrt_rev sorted_map)
qed

lemma mset_py_sort_reverse: "mset (py_sort_reverse key xs) = mset xs"
  by (simp add: py_sort_reverse_def)

lemma py_slice_to_nonneg: "0 \<le> n \<Longrightarrow> py_slice_to n xs = take (nat n) xs"
  by (auto simp: py_slice_to_def Let_def min_def)

lemma rank_with_split:
  assumes present: "\<forall>r. res_score r \<noteq> None \<longrightarrow> key r = the (res_score r)"
    and absent: "\<forall>r. res_score r = None \<longrightarrow> key r = c"
  shows "rank_with key top_n results =
           py_slice_to top_n
             (py_sort_reverse (\<lambda>r. the (res_score r)) (filter (\<lambda>r. res_score r \<noteq> None) results))
           @ take 10 (filter (\<lambda>r. res_score r = None) results)"
proof -
  have a: "py_sort_reverse key (filter (\<lambda>r. res_score r \<noteq> None) results) =
           py_sort_reverse (\<lambda>r. the (res_score r)) (filter (\<lambda>r. res_score r \<noteq> None) results)"
    using present by (intro py_sort_reverse_cong_on) simp
  have "py_sort_reverse key (filter (\<lambda>r. res_score r = None) results) =
        py_sort_reverse (\<lambda>r. c) (filter (\<lambda>r. res_score r = None) results)"
    using absent by (intro py_sort_reverse_cong_on) simp
  then have b: "py_sort_reverse key (filter (\<lambda>r. res_score r = None) results) =
             filter (\<lambda>r. res_score r = None) results"
    by (simp add: py_sort_reverse_const)
  have c: "py_slice_to 10 (filter (\<lambda>r. res_score r = None) results) =
             take 10 (filter (\<lambda>r. res_score r = None) results)"
    by (simp add: py_slice_to_nonneg)
  show ?thesis
    unfolding rank_with_def Let_def filter_py_sort_reverse a b c ..
qed

lemma scan_sort_key_eq: "scan_sort_key = sort_key_with (- 1)"
  by (auto simp: scan_sort_key_def sort_key_with_def fun_eq_iff)

lemma py_slice_to_neg: "n < 0 \<Longrightarrow> py_slice_to n xs = take (length xs - nat (- n)) xs"
  by (auto simp: py_slice_to_def Let_def max_def intro!: arg_cong2 [where f = take])

lemma res_ticker_scan_row: "res_ticker (scan_row t rv a) = t"
  by (simp add: scan_row_def Let_def split: prod.splits)

lemma scan_loop_tickers:
  "map res_ticker (scan_loop e rv_map n ts results) = map res_ticker results @ ts"
  by (induction ts arbitrary: n results)
    (simp_all add: Let_def res_ticker_scan_row split: prod.splits)

text \<open>
  Claim C2, as amended. The list the scan endpoint returns is the slice \<open>ranked[:top]\<close> of
  the scored entries in descending order of score (a permutation of them, entries of equal
  score in their original order), followed by the first 10 unscored entries in their
  original order. The slice is the first \<open>top\<close> entries for \<open>top \<ge> 0\<close> and all but the last
  \<open>-top\<close> entries for \<open>top < 0\<close>. The number that stands for a missing score in the sort key
  does not matter: any other number in the place of \<open>-1\<close> gives the same list. The entries
  are those of the loop over the tickers, one per ticker in the order of the tickers.
\<close>

theorem scan_ranked_order:
  "(let results = scan_loop e rv_map 0 tickers [];
        ranked = py_sort_reverse (\<lambda>r. the (res_score r)) (filter (\<lambda>r. res_score r \<noteq> None) results);
        missing = filter (\<lambda>r. res_score r = None) results
    in scan_sp500 e rv_map tickers top_n = py_slice_to top_n ranked @ take 10 missing
       \<and> (0 \<le> top_n \<longrightarrow> py_slice_to top_n ranked = take (nat top_n) ranked)
       \<and> (top_n < 0 \<longrightarrow> py_slice_to top_n ranked = take (length ranked - nat (- top_n)) ranked)
       \<and> sorted_wrt (\<lambda>a b. the (res_score b) \<le> the (res_score a)) ranked
       \<and> mset ranked = mset (filter (\<lambda>r. res_score r \<noteq> None) results)
       \<and> filter (\<lambda>r. res_score r = Some k) ranked = filter (\<lambda>r. res_score r = Some k) results
       \<and> rank_with (sort_key_with sentinel) top_n results = scan_sp500 e rv_map tickers top_n
       \<and> map res_ticker results = tickers)"
proof -
  define results where "results = scan_loop e rv_map 0 tickers []"
  define ranked where
    "ranked = py_sort_reverse (\<lambda>r. the (res_score r)) (filter (\<lambda>r. res_score r \<noteq> None) results)"
  define missing where "missing = filter (\<lambda>r. res_score r = None) results"
  have split: "rank_with (sort_key_with s) top_n results = py_slice_to top_n ranked @ take 10 missing" for s
    unfolding ranked_def missing_def
    by (rule rank_with_split [where c = s]) (auto simp: sort_key_with_def)
  have a: "scan_sp500 e rv_map tickers top_n = py_slice_to top_n ranked @ take 10 missing"
    unfolding scan_sp500_def scan_ranked_def scan_sort_key_eq results_def [symmetric] by (rule split)
  have b: "0 \<le> top_n \<longrightarrow> py_slice_to top_n ranked = take (nat top_n) ranked"
    by (simp add: py_slice_to_nonneg)
  have c: "top_n < 0 \<longrightarrow> py_slice_to top_n ranked = take (length ranked - nat (- top_n)) ranked"
    by (simp add: py_slice_to_neg)
  have d: "sorted_wrt (\<lambda>a b. the (res_score b) \<le> the (res_score a)) ranked"
    unfolding ranked_def by (rule py_sort_reverse_desc)
  have f: "mset ranked = mset (filter (\<lambda>r. res_score r \<noteq> None) results)"
    unfolding ranked_def by (rule mset_py_sort_reverse)
  have "filter (\<lambda>r. res_score r = Some k) ranked
        = py_sort_reverse (\<lambda>r. the (res_score r)) (filter (\<lambda>r. res_score r = Some k) results)"
    unfolding ranked_def filter_py_sort_reverse
    by (rule arg_cong [where f = "py_sort_reverse _"]) (auto intro: filter_cong)
  also have "\<dots> = py_sort_reverse (\<lambda>r. k) (filter (\<lambda>r. res_score r = Some k) results)"
    by (rule py_sort_reverse_cong_on) simp
  finally have g: "filter (\<lambda>r. res_score r = Some k) ranked = filter (\<lambda>r. res_score r = Some k) results"
    by (simp add: py_sort_reverse_const)
  have h: "rank_with (sort_key_with sentinel) top_n results = scan_sp500 e rv_map tickers top_n"
    unfolding a by (rule split)
  have t: "map res_ticker results = tickers"
    unfolding results_def by (simp add: scan_loop_tickers)
  from a b c d f g h t show ?thesis
    unfolding Let_def results_def ranked_def missing_def by (intro conjI)
qed

theorem scan_ranked_order_witness:
  "map res_ticker
     (scan_sp500 (provider (\<lambda>n. ok_reply scenario_quotes)) sample_rv [''A'', ''B'', ''C'', ''D''] 2)
   = [''C'', ''A'', ''B''] \<and>
   map res_ticker
     (scan_sp500 (provider (\<lambda>n. ok_reply scenario_quotes)) sample_rv [''A'', ''B'', ''C'', ''D''] (- 2))
   = [''C'', ''B'']"
proof (intro conjI)
  let ?e = "provider (\<lambda>n. ok_reply scenario_quotes)"
  let ?results = "scan_loop ?e sample_rv 0 [''A'', ''B'', ''C'', ''D''] []"
  let ?ranked = "py_sort_reverse (\<lambda>r. the (res_score r)) (filter (\<lambda>r. res_score r \<noteq> None) ?results)"
  let ?missing = "filter (\<lambda>r. res_score r = None) ?results"
  note t = scan_ranked_order [of ?e sample_rv "[''A'', ''B'', ''C'', ''D'']" 2]
  from t have "scan_sp500 ?e sample_rv [''A'', ''B'', ''C'', ''D''] 2 = py_slice_to 2 ?ranked @ take 10 ?missing"
    unfolding Let_def by (rule conjunct1)
  moreover from t have "(0::int) \<le> 2 \<longrightarrow> py_slice_to 2 ?ranked = take (nat 2) ?ranked"
    unfolding Let_def by (rule conjunct1 [OF conjunct2])
  then have "py_slice_to 2 ?ranked = take (nat 2) ?ranked"
    by simp
  moreover have "map res_ticker (take (nat 2) ?ranked @ take 10 ?missing) = [''C'', ''A'', ''B'']"
    by code_simp
  ultimately show "map res_ticker (scan_sp500 ?e sample_rv [''A'', ''B'', ''C'', ''D''] 2)
                     = [''C'', ''A'', ''B'']"
    by (simp only:)
  note u = scan_ranked_order [of ?e sample_rv "[''A'', ''B'', ''C'', ''D'']" "- 2"]
  from u have "scan_sp500 ?e sample_rv [''A'', ''B'', ''C'', ''D''] (- 2) =
                 py_slice_to (- 2) ?ranked @ take 10 ?missing"
    unfolding Let_def by (rule conjunct1)
  moreover from u have "(- 2 :: int) < 0 \<longrightarrow>
      py_slice_to (- 2) ?ranked = take (length ?ranked - nat (- (- 2))) ?ranked"
    unfolding Let_def by (rule conjunct1 [OF conjunct2 [OF conjunct2]])
  then have "py_slice_to (- 2) ?ranked = take (length ?ranked - nat (- (- 2))) ?ranked"
    by simp
  moreover have "map res_ticker (take (length ?ranked - nat (- (- 2))) ?ranked @ take 10 ?missing)
                   = [''C'', ''B'']"
    by code_simp
  ultimately show "map res_ticker (scan_sp500 ?e sample_rv [''A'', ''B'', ''C'', ''D''] (- 2))
                     = [''C'', ''B'']"
    by (simp only:)
qed

text \<open>
  Claim C2 as stated fails for a negative \<open>top\<close>: with \<open>top = -1\<close> the list holds two scored
  entries, all the scored entries but the last, where a cap of \<open>-1\<close> allows none.
\<close>

theorem scan_negative_top:
  "map res_ticker
     (scan_sp500 (provider (\<lambda>n. ok_reply scenario_quotes)) sample_rv [''A'', ''B'', ''C'', ''D''] (- 1))
   = [''C'', ''A'', ''B''] \<and>
   map res_score
     (scan_sp500 (provider (\<lambda>n. ok_reply scenario_quotes)) sample_rv [''A'', ''B'', ''C'', ''D''] (- 1))
   = [Some 3, Some 1, None]"
  by code_simp

text \<open>
  Claim C4. \<open>score_iv_gap\<close> gives \<open>(None, None)\<close> exactly when \<open>iv\<close> is missing, \<open>rv\<close> is
  missing or \<open>rv = 0\<close>; otherwise it gives \<open>(iv - rv, iv / rv - 1)\<close>, which is \<open>(0, 0)\<close> for
  \<open>iv = rv\<close>.
\<close>

theorem score_iv_gap_contract:
  "(score_iv_gap iv rv = (None, None) \<longleftrightarrow> iv = None \<or> rv = None \<or> rv = Some 0) \<and>
   (r \<noteq> 0 \<longrightarrow> score_iv_gap (Some i) (Some r) = (Some (i - r), Some (i / r - 1))) \<and>
   (r \<noteq> 0 \<longrightarrow> score_iv_gap (Some r) (Some r) = (Some 0, Some 0))"
  by (auto simp: score_iv_gap_def Let_def)

theorem score_iv_gap_contract_witness:
  "score_iv_gap (Some (7 / 20)) (Some (1 / 4)) = (Some (1 / 10), Some (2 / 5)) \<and>
   score_iv_gap (Some (1 / 4)) (Some (1 / 4)) = (Some 0, Some 0) \<and>
   score_iv_gap (Some (7 / 20)) (Some 0) = (None, None) \<and>
   score_iv_gap None (Some (1 / 4)) = (None, None)"
  using score_iv_gap_contract [of "Some (7 / 20)" "Some 0" "1 / 4" "7 / 20"]
    score_iv_gap_contract [of None "Some (1 / 4)" 1 1]
  by simp

text \<open>
  Claim C9. A ticker whose quote gives an implied volatility and whose stored realized
  volatility is 0 gets an entry with no score and no reason: \<open>get_atm_iv_for_ticker\<close>
  reports no reason, and the fallback \<open>missing_rv_or_iv\<close> only looks at \<open>iv\<close> and \<open>rv\<close>
  being present, while \<open>score_iv_gap\<close> also gives no score for \<open>rv = 0\<close>.
\<close>

theorem scan_zero_rv_null_reason:
  "scan_sp500 (provider (\<lambda>n. ok_reply scenario_quotes)) (\<lambda>t. Some 0) [''AAPL''] 50 =
     [\<lparr>res_ticker = ''AAPL'', res_spot = Some 152, res_expiry = None, res_atm_strike = None,
       res_iv = Some 0.32, res_rv = Some 0, res_iv_gap = None, res_score = None,
       res_reason = None\<rparr>]"
  by code_simp



section \<open>Properties of the selection of the at-the-money quote\<close>

lemma pick_loop_best_of:
  "\<forall>(s, q) \<in> set quotes. \<exists>d. q = PDict d \<Longrightarrow>
     pick_loop sf quotes (best_rec b) = Inr (best_rec (best_of (eligible sf quotes) b))"
proof (induction quotes arbitrary: b)
  case Nil
  then show ?case by simp
next
  case (Cons sq quotes)
  obtain s q where sq: "sq = (s, q)" by (cases sq)
  with Cons.prems obtain d where q: "q = PDict d" by auto
  from Cons.prems have rest: "\<forall>(s, q) \<in> set quotes. \<exists>d. q = PDict d" by simp
  note ih = Cons.IH [OF rest]
  show ?case
  proof (cases "safe_float sf (first (dict_get d ''iv''))")
    case None
    then show ?thesis using ih by (simp add: sq q)
  next
    case iv: (Some i)
    show ?thesis
    proof (cases "safe_float sf (first (dict_get d ''delta''))")
      case None
      then show ?thesis using ih iv by (simp add: sq q)
    next
      case dl: (Some dl)
      show ?thesis
      proof (cases b)
        case None
        then show ?thesis
          using ih [of "Some (s, i, dl)"] iv dl by (simp add: sq q best_rec_def)
      next
        case (Some y)
        obtain s' i' d' where y: "y = (s', i', d')" by (cases y)
        show ?thesis
          using ih [of "Some (s, i, dl)"] ih [of "Some y"] iv dl Some
          by (simp add: sq q y best_rec_def atm_dist_def)
      qed
    qed
  qed
qed

lemma find_skip: "\<not> P x \<Longrightarrow> find P (x # xs) = find P xs"
  by simp

lemma find_hit: "P x \<Longrightarrow> find P (x # xs) = Some x"
  by simp

lemma best_of_closest:
  "best_of xs (Some y) = closest_to_half (y # xs)"
proof (induction xs arbitrary: y)
  case Nil
  then show ?case by (simp add: closest_to_half_def)
next
  case (Cons x xs)
  let ?P1 = "\<lambda>w. \<forall>z \<in> set (y # xs). atm_dist w \<le> atm_dist z"
  let ?Px = "\<lambda>w. \<forall>z \<in> set (x # xs). atm_dist w \<le> atm_dist z"
  let ?P2 = "\<lambda>w. \<forall>z \<in> set (y # x # xs). atm_dist w \<le> atm_dist z"
  show ?case
  proof (cases "atm_dist x < atm_dist y")
    case True
    then have "best_of (x # xs) (Some y) = closest_to_half (x # xs)"
      by (simp add: Cons.IH)
    also have "\<dots> = find ?Px (x # xs)"
      by (simp only: closest_to_half_def)
    also have "\<dots> = find ?P2 (x # xs)"
    proof (rule find_cong [OF refl])
      fix w assume "w \<in> set (x # xs)"
      show "?Px w = ?P2 w"
      proof
        assume p: "?Px w"
        then have "atm_dist w \<le> atm_dist x" by simp
        with True have "atm_dist w \<le> atm_dist y" by simp
        with p show "?P2 w" by simp
      next
        assume "?P2 w"
        then show "?Px w" by simp
      qed
    qed
    also have "\<dots> = find ?P2 (y # x # xs)"
    proof -
      have "\<not> ?P2 y" using True by auto
      then show ?thesis by (rule find_skip [symmetric])
    qed
    also have "\<dots> = closest_to_half (y # x # xs)"
      by (simp only: closest_to_half_def)
    finally show ?thesis .
  next
    case False
    then have "best_of (x # xs) (Some y) = closest_to_half (y # xs)"
      by (simp add: Cons.IH)
    also have "\<dots> = find ?P1 (y # xs)"
      by (simp only: closest_to_half_def)
    also have "\<dots> = find ?P2 (y # x # xs)"
    proof (cases "\<forall>z \<in> set xs. atm_dist y \<le> atm_dist z")
      case True
      then have p: "?P1 y" "?P2 y" using False by simp_all
      have "find ?P1 (y # xs) = Some y"
        using p(1) by (rule find_hit)
      also have "Some y = find ?P2 (y # x # xs)"
        using p(2) by (rule find_hit [symmetric])
      finally show ?thesis .
    next
      case ny: False
      have c: "find ?P1 xs = find ?P2 xs"
      proof (rule find_cong [OF refl])
        fix w assume "w \<in> set xs"
        show "?P1 w = ?P2 w"
        proof
          assume p: "?P1 w"
          then have "atm_dist w \<le> atm_dist y" by simp
          with False have "atm_dist w \<le> atm_dist x" by simp
          with p show "?P2 w" by simp
        next
          assume "?P2 w"
          then show "?P1 w" by simp
        qed
      qed
      have n1: "\<not> ?P1 y" using ny by simp
      have n2: "\<not> ?P2 y" using ny by simp
      have nx: "\<not> ?P2 x"
      proof
        assume a: "?P2 x"
        then have "atm_dist x \<le> atm_dist y" by simp
        with False have e: "atm_dist x = atm_dist y" by simp
        from a have "\<forall>z \<in> set xs. atm_dist x \<le> atm_dist z" by simp
        then have "\<forall>z \<in> set xs. atm_dist y \<le> atm_dist z" unfolding e .
        with ny show False by contradiction
      qed
      have "find ?P1 (y # xs) = find ?P1 xs"
        using n1 by (rule find_skip)
      also have "\<dots> = find ?P2 xs" by (rule c)
      also have "\<dots> = find ?P2 (x # xs)"
        using nx by (rule find_skip [symmetric])
      also have "\<dots> = find ?P2 (y # x # xs)"
        using n2 by (rule find_skip [symmetric])
      finally show ?thesis .
    qed
    also have "\<dots> = closest_to_half (y # x # xs)"
      by (simp only: closest_to_half_def)
    finally show ?thesis .
  qed
qed

lemma best_of_None: "best_of xs None = closest_to_half xs"
  by (cases xs) (simp_all add: best_of_closest, simp add: closest_to_half_def)

lemma exists_min_dist: "xs \<noteq> [] \<Longrightarrow> \<exists>x \<in> set xs. \<forall>y \<in> set xs. atm_dist x \<le> atm_dist y"
proof (induction xs)
  case Nil
  then show ?case by simp
next
  case (Cons a xs)
  show ?case
  proof (cases "xs = []")
    case True
    then show ?thesis by simp
  next
    case False
    with Cons.IH obtain m where m: "m \<in> set xs" "\<forall>y \<in> set xs. atm_dist m \<le> atm_dist y"
      by blast
    show ?thesis
    proof (cases "atm_dist a \<le> atm_dist m")
      case True
      with m have "\<forall>y \<in> set (a # xs). atm_dist a \<le> atm_dist y" by auto
      then show ?thesis by auto
    next
      case False
      with m have "\<forall>y \<in> set (a # xs). atm_dist m \<le> atm_dist y" by auto
      with m(1) show ?thesis by auto
    qed
  qed
qed

lemma closest_to_half_None: "closest_to_half xs = None \<longleftrightarrow> xs = []"
proof
  assume n: "closest_to_half xs = None"
  show "xs = []"
  proof (rule ccontr)
    assume "xs \<noteq> []"
    from exists_min_dist [OF this]
    obtain x where x: "x \<in> set xs" "\<forall>y \<in> set xs. atm_dist x \<le> atm_dist y"
      by (elim bexE)
    from n have "\<not> (\<exists>x. x \<in> set xs \<and> (\<forall>y \<in> set xs. atm_dist x \<le> atm_dist y))"
      unfolding closest_to_half_def find_None_iff .
    with x show False by (elim notE) (intro exI conjI)
  qed
next
  assume "xs = []"
  then show "closest_to_half xs = None" by (simp add: closest_to_half_def)
qed


lemma pick_atm_closest:
  assumes "\<forall>(s, q) \<in> set quotes. \<exists>d. q = PDict d"
  shows "pick_atm_from_quotes sf spot quotes =
           Inr (case closest_to_half (eligible sf quotes) of
                  None \<Rightarrow> (None, None, None)
                | Some (s, i, d) \<Rightarrow> (Some s, Some i, Some d))"
proof -
  have "pick_loop sf quotes (best_rec None) = Inr (best_rec (closest_to_half (eligible sf quotes)))"
    using pick_loop_best_of [OF assms, of sf None] by (simp only: best_of_None)
  then show ?thesis
    by (simp add: pick_atm_from_quotes_def best_rec_def split: option.splits)
qed

text \<open>
  Claim C3, as amended. On a quote map whose values are dictionaries,
  \<open>pick_atm_from_quotes\<close> skips every quote whose iv or delta is missing and returns the
  eligible quote closest to 0.50, the first one among equals; it returns nothing exactly
  when no quote is eligible. When the selection is reached with a map without an
  eligible quote, \<open>get_atm_iv_for_ticker\<close> reports \<open>no_iv\<close> for a non-empty map and
  \<open>no_quotes\<close> for an empty one.
\<close>

theorem atm_selection:
  assumes "\<forall>(s, q) \<in> set quotes. \<exists>d. q = PDict d"
  shows "pick_atm_from_quotes sf spot quotes =
           Inr (case closest_to_half (eligible sf quotes) of
                  None \<Rightarrow> (None, None, None)
                | Some (s, i, d) \<Rightarrow> (Some s, Some i, Some d))
         \<and> (closest_to_half (eligible sf quotes) = None \<longleftrightarrow> eligible sf quotes = [])
         \<and> (env_spot e (py_upper (py_strip ticker)) = Inr (Some spot)
              \<and> env_chain e (py_upper (py_strip ticker)) = Inr chain \<and> chain \<noteq> []
              \<and> fetch_quotes_batch_chunked e n (py_slice_to max_quotes chain) 20 = Inr (quotes, n')
              \<and> eligible (env_str_float e) quotes = []
            \<longrightarrow> atm_reason (fst (get_atm_iv_for_ticker e n ticker max_quotes)) =
                  Some (if quotes = [] then ''no_quotes'' else ''no_iv''))"
proof (intro conjI impI)
  show "pick_atm_from_quotes sf spot quotes =
           Inr (case closest_to_half (eligible sf quotes) of
                  None \<Rightarrow> (None, None, None)
                | Some (s, i, d) \<Rightarrow> (Some s, Some i, Some d))"
    using assms by (rule pick_atm_closest)
  show "closest_to_half (eligible sf quotes) = None \<longleftrightarrow> eligible sf quotes = []"
    by (rule closest_to_half_None)
  assume h: "env_spot e (py_upper (py_strip ticker)) = Inr (Some spot)
              \<and> env_chain e (py_upper (py_strip ticker)) = Inr chain \<and> chain \<noteq> []
              \<and> fetch_quotes_batch_chunked e n (py_slice_to max_quotes chain) 20 = Inr (quotes, n')
              \<and> eligible (env_str_float e) quotes = []"
  then have "closest_to_half (eligible (env_str_float e) quotes) = None"
    by (simp add: closest_to_half_None)
  then have "pick_atm_from_quotes (env_str_float e) spot quotes = Inr (None, None, None)"
    using pick_atm_closest [OF assms, of "env_str_float e" spot] by simp
  with h show "atm_reason (fst (get_atm_iv_for_ticker e n ticker max_quotes)) =
                  Some (if quotes = [] then ''no_quotes'' else ''no_iv'')"
    by (simp add: get_atm_iv_for_ticker_def Let_def atm_failed_def)
qed

theorem atm_selection_witness:
  "pick_atm_from_quotes (\<lambda>s. None) 152 scenario_quotes =
     Inr (Some ''AAPL240621C150'', Some 0.32, Some 0.51) \<and>
   pick_atm_from_quotes (\<lambda>s. None) 152 tied_quotes = Inr (Some ''B'', Some 0.3, Some 0.75) \<and>
   pick_atm_from_quotes (\<lambda>s. None) 152 bare_quotes = Inr (None, None, None) \<and>
   atm_reason (fst (get_atm_iv_for_ticker (provider (\<lambda>n. ok_reply bare_quotes)) 0 ''AAPL'' 80)) =
     Some ''no_iv''"
proof (intro conjI)
  have d1: "\<forall>(s, q) \<in> set scenario_quotes. \<exists>d. q = PDict d"
    by (simp add: scenario_quotes_def)
  have c1: "closest_to_half (eligible (\<lambda>s. None) scenario_quotes) =
              Some (''AAPL240621C150'', 0.32, 0.51)"
    by code_simp
  from atm_selection [OF d1, of "\<lambda>s. None" 152]
  show "pick_atm_from_quotes (\<lambda>s. None) 152 scenario_quotes =
     Inr (Some ''AAPL240621C150'', Some 0.32, Some 0.51)"
    unfolding c1 by simp
  have d2: "\<forall>(s, q) \<in> set tied_quotes. \<exists>d. q = PDict d"
    by (simp add: tied_quotes_def)
  have c2: "closest_to_half (eligible (\<lambda>s. None) tied_quotes) = Some (''B'', 0.3, 0.75)"
    by code_simp
  from atm_selection [OF d2, of "\<lambda>s. None" 152]
  show "pick_atm_from_quotes (\<lambda>s. None) 152 tied_quotes = Inr (Some ''B'', Some 0.3, Some 0.75)"
    unfolding c2 by simp
  let ?e = "provider (\<lambda>n. ok_reply bare_quotes)"
  have d3: "\<forall>(s, q) \<in> set bare_quotes. \<exists>d. q = PDict d"
    by (simp add: bare_quotes_def)
  have c3: "eligible (\<lambda>s. None) bare_quotes = []"
    by code_simp
  have c3': "closest_to_half (eligible (\<lambda>s. None) bare_quotes) = None"
    by code_simp
  from atm_selection [OF d3, of "\<lambda>s. None" 152]
  show "pick_atm_from_quotes (\<lambda>s. None) 152 bare_quotes = Inr (None, None, None)"
    unfolding c3' by simp
  have sp: "env_spot ?e (py_upper (py_strip ''AAPL'')) = Inr (Some 152)"
    by (simp add: provider_def)
  have ch: "env_chain ?e (py_upper (py_strip ''AAPL'')) = Inr [''AAPL240621C150'', ''AAPL240621C160'']"
    by (simp add: provider_def)
  have f: "fetch_quotes_batch_chunked ?e 0
             (py_slice_to 80 [''AAPL240621C150'', ''AAPL240621C160'']) 20 = Inr (bare_quotes, 1)"
    by code_simp
  have el: "eligible (env_str_float ?e) bare_quotes = []"
    using c3 by (simp add: provider_def)
  have ne: "bare_quotes \<noteq> []"
    by (simp add: bare_quotes_def)
  from atm_selection [OF d3, of "\<lambda>s. None" 152 ?e "''AAPL''"
        "[''AAPL240621C150'', ''AAPL240621C160'']" 0 80 1]
  have "atm_reason (fst (get_atm_iv_for_ticker ?e 0 ''AAPL'' 80)) =
          Some (if bare_quotes = [] then ''no_quotes'' else ''no_iv'')"
    using sp ch f el by blast
  then show "atm_reason (fst (get_atm_iv_for_ticker ?e 0 ''AAPL'' 80)) = Some ''no_iv''"
    using ne by simp
qed

text \<open>
  Claim C3 as stated fails on the empty quote map: no eligible quote exists, and the
  reason reported is \<open>no_quotes\<close>, not \<open>no_iv\<close>.
\<close>

theorem empty_map_reports_no_quotes:
  "eligible (\<lambda>s. None) [] = [] \<and>
   get_atm_iv_for_ticker (provider (\<lambda>n. ok_reply [])) 0 ''AAPL'' 80 =
     (\<lparr>atm_ticker = ''AAPL'', atm_spot = Some 152, atm_iv = None, atm_delta = None,
       atm_option_symbol = None, atm_reason = Some ''no_quotes''\<rparr>, 1)"
  by code_simp



section \<open>Properties of the fetches\<close>



lemma dict_update_empty: "dict_update out [] = out"
  by (simp add: dict_update_def)

lemma try_chunk_effect:
  "(case try_chunk reply out of Inl err \<Rightarrow> out | Inr out' \<Rightarrow> out') =
     (case reply_quotes reply of None \<Rightarrow> out | Some q \<Rightarrow> dict_update out q)"
proof (cases reply)
  case ConnFail
  then show ?thesis by (simp add: try_chunk_def reply_quotes_def request_failed_def)
next
  case (Reply status body)
  show ?thesis
  proof (cases "raise_for_status status")
    case True
    then show ?thesis by (simp add: Reply try_chunk_def reply_quotes_def request_failed_def)
  next
    case ok: False
    show ?thesis
    proof (cases body)
      case None
      then show ?thesis by (simp add: Reply ok try_chunk_def reply_quotes_def request_failed_def)
    next
      case (Some j)
      show ?thesis
      proof (cases j)
        case (PDict d)
        show ?thesis
        proof (cases "dict_get d ''s'' = PStr ''ok''")
          case True
          then show ?thesis
            by (cases "dict_get d ''quotes''")
              (simp_all add: Reply ok Some PDict try_chunk_def reply_quotes_def request_failed_def
                 dict_update_empty)
        next
          case False
          then show ?thesis
            by (simp add: Reply ok Some PDict try_chunk_def reply_quotes_def request_failed_def)
        qed
      qed (simp_all add: Reply ok Some try_chunk_def reply_quotes_def request_failed_def)
    qed
  qed
qed

lemma chunk_loop_step:
  "chunk_loop e n (chunk # chunks) out =
     chunk_loop e (Suc n) chunks
       (case reply_quotes (env_quotes e n chunk) of None \<Rightarrow> out | Some q \<Rightarrow> dict_update out q)"
proof -
  have "chunk_loop e n (chunk # chunks) out =
          chunk_loop e (Suc n) chunks
            (case try_chunk (env_quotes e n chunk) out of Inl err \<Rightarrow> out | Inr out' \<Rightarrow> out')"
    by (simp split: sum.splits)
  then show ?thesis by (simp only: try_chunk_effect)
qed

lemma chunk_loop_counter: "snd (chunk_loop e n chunks out) = n + length chunks"
proof (induction chunks arbitrary: n out)
  case Nil
  then show ?case by simp
next
  case (Cons c chunks)
  show ?case by (simp only: chunk_loop_step Cons.IH length_Cons add_Suc_shift)
qed

lemma reply_quotes_failed: "request_failed reply \<Longrightarrow> reply_quotes reply = None"
  by (simp add: reply_quotes_def)








lemma candles_loop_closed:
  "candles_loop net attempts sleeps =
     (case find (\<lambda>k. \<not> attempt_fails (net k)) attempts of
        None \<Rightarrow> Inl RuntimeError
      | Some k \<Rightarrow> Inr (reply_body (net k)),
      sleeps @ map (backoff net) (takeWhile (\<lambda>k. attempt_fails (net k)) attempts))"
proof (induction attempts arbitrary: sleeps)
  case Nil
  then show ?case by simp
next
  case (Cons a attempts)
  show ?case
  proof (cases "net a")
    case ConnFail
    then show ?thesis
      by (simp add: Cons.IH attempt_fails_def backoff_def rate_limited_def)
  next
    case (Reply status body)
    then show ?thesis
      by (cases body)
        (auto simp: Cons.IH attempt_fails_def backoff_def rate_limited_def reply_body_def
           raise_for_status_def)
  qed
qed

text \<open>
  Claim C8, as amended. \<open>md_get_candles_daily\<close> tries up to five times: it returns the body
  of the first attempt that does not fail and raises when all five fail, and it has slept
  after every failed attempt, the attempt number times 1.5 after a 429 reply and times 1.0
  after any other failure. The quote fetch has no retry: the loop sends one request per
  chunk, and a chunk whose request fails is skipped at once, the map as it was and the
  next request being the one for the next chunk.
\<close>

theorem candle_retry_policy:
  "md_get_candles_daily net =
     (case find (\<lambda>k. \<not> attempt_fails (net k)) [1..<6] of
        None \<Rightarrow> Inl RuntimeError
      | Some k \<Rightarrow> Inr (reply_body (net k)),
      map (backoff net) (takeWhile (\<lambda>k. attempt_fails (net k)) [1..<6]))
   \<and> length (snd (md_get_candles_daily net)) \<le> 5
   \<and> backoff net k = (if rate_limited (net k) then 1.5 * real k else 1.0 * real k)
   \<and> snd (chunk_loop e n chunks out) = n + length chunks
   \<and> (request_failed (env_quotes e n chunk) \<longrightarrow>
        chunk_loop e n [chunk] out = (out, Suc n)
        \<and> chunk_loop e n (chunk # chunks) out = chunk_loop e (Suc n) chunks out)"
proof (intro conjI impI)
  show closed: "md_get_candles_daily net =
     (case find (\<lambda>k. \<not> attempt_fails (net k)) [1..<6] of
        None \<Rightarrow> Inl RuntimeError
      | Some k \<Rightarrow> Inr (reply_body (net k)),
      map (backoff net) (takeWhile (\<lambda>k. attempt_fails (net k)) [1..<6]))"
    by (simp only: md_get_candles_daily_def candles_loop_closed append_Nil)
  have "length (takeWhile (\<lambda>k. attempt_fails (net k)) [1..<6]) \<le> length [1..<6::nat]"
    by (rule length_takeWhile_le)
  then show "length (snd (md_get_candles_daily net)) \<le> 5"
    unfolding closed by simp
  show "backoff net k = (if rate_limited (net k) then 1.5 * real k else 1.0 * real k)"
    by (simp add: backoff_def)
  show "snd (chunk_loop e n chunks out) = n + length chunks"
    by (rule chunk_loop_counter)
  assume f: "request_failed (env_quotes e n chunk)"
  have step: "chunk_loop e n (chunk # cs) out = chunk_loop e (Suc n) cs out" for cs
    using reply_quotes_failed [OF f] by (simp only: chunk_loop_step option.case)
  show "chunk_loop e n (chunk # chunks) out = chunk_loop e (Suc n) chunks out"
    by (rule step)
  have "chunk_loop e n [chunk] out = chunk_loop e (Suc n) [] out"
    by (rule step)
  then show "chunk_loop e n [chunk] out = (out, Suc n)"
    by (simp only: chunk_loop.simps)
qed

theorem candle_retry_policy_witness:
  "md_get_candles_daily (\<lambda>k. if k = 1 then Reply 429 None else if k = 2 then ConnFail
                               else Reply 200 (Some candle_body))
     = (Inr candle_body, [1.5, 2]) \<and>
   md_get_candles_daily (\<lambda>k. Reply 429 None) = (Inl RuntimeError, [1.5, 3, 4.5, 6, 7.5]) \<and>
   chunk_loop (provider (flaky (Reply 429 None))) 0 [[''AAPL240621C150'']] [] = ([], 1)"
proof (intro conjI)
  let ?net = "\<lambda>k::nat. if k = 1 then Reply 429 None else if k = 2 then ConnFail
                               else Reply 200 (Some candle_body)"
  have "(case find (\<lambda>k. \<not> attempt_fails (?net k)) [1..<6] of
        None \<Rightarrow> Inl RuntimeError
      | Some k \<Rightarrow> Inr (reply_body (?net k)),
      map (backoff ?net) (takeWhile (\<lambda>k. attempt_fails (?net k)) [1..<6]))
     = (Inr candle_body, [1.5, 2])"
    by code_simp
  with candle_retry_policy [of ?net]
  show "md_get_candles_daily ?net = (Inr candle_body, [1.5, 2])"
    by simp
  let ?lim = "\<lambda>k::nat. Reply 429 None"
  have "(case find (\<lambda>k. \<not> attempt_fails (?lim k)) [1..<6] of
        None \<Rightarrow> Inl RuntimeError
      | Some k \<Rightarrow> Inr (reply_body (?lim k)),
      map (backoff ?lim) (takeWhile (\<lambda>k. attempt_fails (?lim k)) [1..<6]))
     = (Inl RuntimeError, [1.5, 3, 4.5, 6, 7.5])"
    by code_simp
  with candle_retry_policy [of ?lim]
  show "md_get_candles_daily ?lim = (Inl RuntimeError, [1.5, 3, 4.5, 6, 7.5])"
    by simp
  let ?e = "provider (flaky (Reply 429 None))"
  have failed: "request_failed (env_quotes ?e 0 [''AAPL240621C150''])"
    by (simp add: provider_def flaky_def request_failed_def raise_for_status_def)
  from candle_retry_policy [of _ _ ?e 0 _ "[]" "[''AAPL240621C150'']"]
  have "request_failed (env_quotes ?e 0 [''AAPL240621C150'']) \<longrightarrow>
          chunk_loop ?e 0 [[''AAPL240621C150'']] [] = ([], Suc 0)"
    by blast
  with failed show "chunk_loop ?e 0 [[''AAPL240621C150'']] [] = ([], 1)"
    by simp
qed

text \<open>
  Claim C8 as stated fails on the quote fetch: when the first request fails (the call
  raises, or the reply is a 429) and a second one would succeed, the chunk is skipped
  after that one request.
\<close>

theorem quote_chunk_not_retried:
  "fetch_quotes_batch_chunked (provider (flaky ConnFail)) 0
     [''AAPL240621C150'', ''AAPL240621C160''] 20 = Inr ([], 1) \<and>
   fetch_quotes_batch_chunked (provider (flaky (Reply 429 None))) 0
     [''AAPL240621C150'', ''AAPL240621C160''] 20 = Inr ([], 1) \<and>
   try_chunk (flaky ConnFail 1) [] = Inr scenario_quotes"
  by code_simp


end
